theory Spec2Isabelle
  imports Complex_Main "HOL-Library.Char_ord" "HOL-Library.Sublist"
begin

section \<open>Configuration\<close>

text \<open>
  The three settings of the code rule are read by \<open>fix_code\<close> from module globals. They
  are gathered in a record so that both values of the switch can be talked about;
  \<open>source_settings\<close> holds the values the file assigns.
\<close>

record settings =
  ENABLE_CODE_FILTER :: bool
  CODE_PREFIX :: string
  CODE_LENGTH :: int

definition source_settings :: settings where
  "source_settings =
     \<lparr>ENABLE_CODE_FILTER = True, CODE_PREFIX = ''LKTT'', CODE_LENGTH = 10\<rparr>"

definition MQTT_TOPIC_PUB :: string where
  "MQTT_TOPIC_PUB = ''mqtt_plc/code''"

definition TTL_SECONDS :: real where
  "TTL_SECONDS = 5"

text \<open>
  \<open>OCR_CONFIDENCE_THRESHOLD = 0.8\<close> is a Python float: the double nearest to 0.8, which
  is 3602879701896397 / 2 ^ 52 and lies a little above 4/5. The comparison in
  \<open>capture_and_ocr\<close> is with this number.
\<close>

definition OCR_CONFIDENCE_THRESHOLD :: real where
  "OCR_CONFIDENCE_THRESHOLD = 3602879701896397 / 4503599627370496"

definition CAMERA_MAX_FAILURES :: int where
  "CAMERA_MAX_FAILURES = 3"

text \<open>\<open>MV_OK\<close> is the vendor SDK's success code, zero.\<close>

definition MV_OK :: int where
  "MV_OK = 0"

section \<open>Values handed to \<open>fix_code\<close>\<close>

text \<open>
  \<open>fix_code\<close> starts with an \<open>isinstance(code, str)\<close> test, so its argument is any Python
  value. A \<open>str\<close> is modelled by its UTF-8 bytes: every byte of a code point outside ASCII
  is at least 128, the regular expression deletes such a code point as it deletes each of
  its bytes, and what remains is ASCII, where bytes and code points coincide.
\<close>

datatype pyval =
    PyStr string
  | PyNone
  | PyBool bool
  | PyInt int
  | PyFloat real
  | PyBytes string
  | PyList "pyval list"

section \<open>\<open>fix_code\<close>\<close>

text \<open>The character class \<open>[a-zA-Z0-9]\<close> of the regular expression.\<close>

definition is_alnum :: "char \<Rightarrow> bool" where
  "is_alnum c \<longleftrightarrow>
     (CHR ''a'' \<le> c \<and> c \<le> CHR ''z'') \<or>
     (CHR ''A'' \<le> c \<and> c \<le> CHR ''Z'') \<or>
     (CHR ''0'' \<le> c \<and> c \<le> CHR ''9'')"

text \<open>\<open>re.sub(r"[^a-zA-Z0-9]", "", code)\<close>: every character outside the class is removed.\<close>

definition re_sub_non_alnum :: "string \<Rightarrow> string" where
  "re_sub_non_alnum code = filter is_alnum code"

text \<open>
  \<open>str.upper()\<close>, which \<open>fix_code\<close> applies to ASCII letters and digits only: a lower-case
  letter moves down by 32, anything else stays.
\<close>

definition upper_char :: "char \<Rightarrow> char" where
  "upper_char c =
     (if CHR ''a'' \<le> c \<and> c \<le> CHR ''z'' then char_of (of_char c - (32::nat)) else c)"

definition upper :: "string \<Rightarrow> string" where
  "upper s = map upper_char s"

text \<open>\<open>str.startswith\<close>.\<close>

definition startswith :: "string \<Rightarrow> string \<Rightarrow> bool" where
  "startswith s p = prefix p s"

fun fix_code :: "settings \<Rightarrow> pyval \<Rightarrow> string" where
  "fix_code st (PyStr code) =
     (let cleaned_code = upper (re_sub_non_alnum code) in
      if ENABLE_CODE_FILTER st then
        (if startswith cleaned_code (CODE_PREFIX st) \<and>
            int (length cleaned_code) = CODE_LENGTH st
         then cleaned_code else [])
      else cleaned_code)"
| "fix_code st _ = []"

text \<open>The characters a cleaned code is made of: capital letters and digits.\<close>

definition is_upper_alnum :: "char \<Rightarrow> bool" where
  "is_upper_alnum c \<longleftrightarrow>
     (CHR ''A'' \<le> c \<and> c \<le> CHR ''Z'') \<or> (CHR ''0'' \<le> c \<and> c \<le> CHR ''9'')"

section \<open>Reading the OCR output (\<open>capture_and_ocr\<close>, the recognition part)\<close>

text \<open>
  \<open>ocr.ocr\<close> returns \<open>None\<close> or a list with one entry per image; an entry is \<open>None\<close> or a
  list of words, and \<open>capture_and_ocr\<close> reads from a word its text (\<open>word_info[1][0]\<close>)
  and its confidence (\<open>word_info[1][1]\<close>). The confidence is a float; it is modelled by the
  real number the float stands for, and the comparison of two floats is the comparison
  of these numbers. A confidence written as a decimal in a statement below (0.92, say)
  and the double nearest to that decimal lie on the same side of the threshold.
\<close>

type_synonym word_info = "pyval \<times> real"
type_synonym ocr_line = "word_info list option"
type_synonym ocr_output = "ocr_line list option"

text \<open>The inner loop, \<open>for word_info in line\<close>: what it appends to \<open>results\<close>, in order.\<close>

fun word_results :: "settings \<Rightarrow> word_info list \<Rightarrow> string list" where
  "word_results st [] = []"
| "word_results st ((text, confidence) # line) =
     (if confidence > OCR_CONFIDENCE_THRESHOLD then
        (let cleaned_text = fix_code st text in
         if cleaned_text \<noteq> [] then cleaned_text # word_results st line
         else word_results st line)
      else word_results st line)"

text \<open>The outer loop, \<open>for line in ocr_results\<close>, which skips a line that is \<open>None\<close>.\<close>

fun line_results :: "settings \<Rightarrow> ocr_line list \<Rightarrow> string list" where
  "line_results st [] = []"
| "line_results st (None # ocr_results) = line_results st ocr_results"
| "line_results st (Some line # ocr_results) =
     word_results st line @ line_results st ocr_results"

text \<open>\<open>if ocr_results:\<close> is false for \<open>None\<close> and for the empty list; \<open>results\<close> stays empty.\<close>

definition collect_results :: "settings \<Rightarrow> ocr_output \<Rightarrow> string list" where
  "collect_results st ocr_results =
     (case ocr_results of None \<Rightarrow> [] | Some lines \<Rightarrow> line_results st lines)"

subsection \<open>\<open>collections.Counter\<close> and \<open>most_common(1)\<close>\<close>

text \<open>
  A \<open>Counter\<close> is a dictionary, and a dictionary keeps its keys in the order of their
  first insertion: it is modelled by the list of its items in that order. Counting an
  element adds one to its entry, or appends a new entry with the count one.
\<close>

fun counter_add :: "'a \<Rightarrow> ('a \<times> nat) list \<Rightarrow> ('a \<times> nat) list" where
  "counter_add elem [] = [(elem, 1)]"
| "counter_add elem ((k, n) # items) =
     (if k = elem then (k, n + 1) # items else (k, n) # counter_add elem items)"

definition Counter :: "'a list \<Rightarrow> ('a \<times> nat) list" where
  "Counter xs = foldl (\<lambda>items elem. counter_add elem items) [] xs"

text \<open>
  \<open>most_common(1)\<close> is \<open>heapq.nlargest(1, self.items(), key=itemgetter(1))\<close>, which for one
  element is \<open>max(items, key=...)\<close>: a scan that replaces the best item so far only by an
  item with a strictly greater count. On no items it returns the empty list.
\<close>

fun max_by_count :: "('a \<times> nat) \<Rightarrow> ('a \<times> nat) list \<Rightarrow> ('a \<times> nat)" where
  "max_by_count best [] = best"
| "max_by_count best (item # items) =
     (if snd item > snd best then max_by_count item items else max_by_count best items)"

definition most_common_1 :: "('a \<times> nat) list \<Rightarrow> ('a \<times> nat) list" where
  "most_common_1 items =
     (case items of [] \<Rightarrow> [] | item # rest \<Rightarrow> [max_by_count item rest])"

text \<open>
  The end of \<open>capture_and_ocr\<close>: \<open>None\<close> when \<open>results\<close> is empty, otherwise the key of
  \<open>Counter(results).most_common(1)[0]\<close>. The index \<open>[0]\<close> would raise on an empty list,
  which the guard before it excludes; the model returns \<open>None\<close> there.
\<close>

definition most_common_result :: "string list \<Rightarrow> string option" where
  "most_common_result results =
     (if results = [] then None
      else (case most_common_1 (Counter results) of
              [] \<Rightarrow> None
            | (result, _) # _ \<Rightarrow> Some result))"

text \<open>The recognition part as one function, from the OCR output to the returned code.\<close>

definition aggregate :: "settings \<Rightarrow> ocr_output \<Rightarrow> string option" where
  "aggregate st ocr_results = most_common_result (collect_results st ocr_results)"

section \<open>The station: camera, queue and main loop\<close>

text \<open>
  The calls the script makes to its collaborators (camera SDK, MQTT client), in the
  order it makes them, are recorded in the state. \<open>ReconnectCamera\<close> stands for one call
  of \<open>reconnect_camera\<close>, \<open>Publish topic payload\<close> for \<open>mqtt_client.publish\<close>.
\<close>

datatype call =
    TriggerSoftware
  | GetImageBuffer
  | FreeImageBuffer
  | ReconnectCamera
  | Publish string string

text \<open>
  The module's global variables. Times are seconds as real numbers; the queue holds the
  parsed timestamps, oldest first.
\<close>

record station =
  consecutive_failures :: int
  camera_initialized :: bool
  message_queue :: "real list"
  calls :: "call list"

text \<open>
  What the collaborators answer during one call of \<open>capture_and_ocr\<close>: whether the
  software trigger raises, what \<open>MV_CC_GetImageBuffer\<close> does, what a reconnection would
  return, and what image conversion and OCR do with the frame (an exception anywhere
  between the conversion and the reading of the OCR output, or the OCR output).
\<close>

datatype fetch = FetchRaised | FetchReturned int

datatype processing = ProcessingRaised | OcrReturned ocr_output

record capture_env =
  trigger_raises :: bool
  fetch :: fetch
  reconnect_ok :: bool
  processing :: processing

text \<open>
  The local variables the \<open>finally\<close> block looks at: whether \<open>frame_out\<close> is not \<open>None\<close>,
  and \<open>ret\<close>, which is missing from \<open>locals()\<close> until the fetch has returned.
\<close>

record locals =
  frame_out :: bool
  ret :: "int option"

text \<open>
  \<open>reconnect_camera\<close> tears the session down and runs \<open>initialize_camera\<close>; every exception
  is caught on the way. It returns a boolean, and \<open>camera_initialized\<close> ends equal to it:
  \<open>True\<close> is returned only where \<open>initialize_camera\<close> has set the flag, and both handlers
  clear it before returning \<open>False\<close>. The result itself is the SDK's answer.
\<close>

definition reconnect_camera :: "bool \<Rightarrow> station \<Rightarrow> bool \<times> station" where
  "reconnect_camera ok s =
     (ok, s\<lparr>camera_initialized := ok, calls := calls s @ [ReconnectCamera]\<rparr>)"

text \<open>The \<open>try\<close> block of \<open>capture_and_ocr\<close> with its \<open>except\<close> handler, which returns \<open>None\<close>.\<close>

definition try_capture ::
  "settings \<Rightarrow> capture_env \<Rightarrow> station \<Rightarrow> string option \<times> locals \<times> station" where
  "try_capture st env s0 =
     (let s1 = s0\<lparr>calls := calls s0 @ [TriggerSoftware]\<rparr> in
      if trigger_raises env then (None, \<lparr>frame_out = False, ret = None\<rparr>, s1)
      else
        let s2 = s1\<lparr>calls := calls s1 @ [GetImageBuffer]\<rparr> in
        case fetch env of
          FetchRaised \<Rightarrow> (None, \<lparr>frame_out = True, ret = None\<rparr>, s2)
        | FetchReturned r \<Rightarrow>
            let l = \<lparr>frame_out = True, ret = Some r\<rparr> in
            if r \<noteq> MV_OK then
              let s3 = s2\<lparr>consecutive_failures := consecutive_failures s2 + 1\<rparr> in
              if consecutive_failures s3 \<ge> CAMERA_MAX_FAILURES then
                (case reconnect_camera (reconnect_ok env) s3 of
                   (ok, s4) \<Rightarrow>
                     if ok then (None, l, s4\<lparr>consecutive_failures := 0\<rparr>)
                     else (None, l, s4))
              else (None, l, s3)
            else
              let s3 = s2\<lparr>consecutive_failures := 0\<rparr> in
              case processing env of
                ProcessingRaised \<Rightarrow> (None, l, s3)
              | OcrReturned ocr_results \<Rightarrow> (aggregate st ocr_results, l, s3))"

text \<open>\<open>capture_and_ocr\<close>: the \<open>try\<close> block, then the \<open>finally\<close> block with its guard.\<close>

definition capture_and_ocr ::
  "settings \<Rightarrow> capture_env \<Rightarrow> station \<Rightarrow> string option \<times> station" where
  "capture_and_ocr st env s =
     (case try_capture st env s of
        (result, l, s') \<Rightarrow>
          (result,
           if frame_out l \<and> ret l = Some MV_OK
           then s'\<lparr>calls := calls s' @ [FreeImageBuffer]\<rparr> else s'))"

text \<open>
  What becomes of the payload of a message in \<open>on_mqtt_message\<close>: \<open>decode("utf-8")\<close>
  raises \<open>UnicodeDecodeError\<close>, or the text is decoded and \<open>strptime\<close> raises \<open>ValueError\<close>,
  or the text is parsed into a timestamp.
\<close>

datatype payload = Undecodable | Unparsable | Timestamp real

datatype callback_error = UnboundLocalError

text \<open>
  \<open>on_mqtt_message\<close>, at the time \<open>now\<close>. A text that does not parse is reported by the
  \<open>except ValueError\<close> handler and ignored. \<open>UnicodeDecodeError\<close> is a \<open>ValueError\<close> too, so
  the same handler takes it; it formats the local \<open>payload\<close>, which the failed
  assignment has left unbound, and \<open>UnboundLocalError\<close> leaves the callback (the handler
  \<open>except Exception\<close> beside it does not apply to an exception raised in a handler). The
  queue is not touched on that path. The callback runs on the listener's thread and the
  main loop on its own; they share the queue only, whose \<open>put\<close> and \<open>get\<close> are atomic, so
  a run of the script is an interleaving of this function and \<open>main_loop_iteration\<close>.
\<close>

definition on_mqtt_message ::
  "real \<Rightarrow> payload \<Rightarrow> station \<Rightarrow> callback_error + station" where
  "on_mqtt_message now payload s =
     (case payload of
        Undecodable \<Rightarrow> Inl UnboundLocalError
      | Unparsable \<Rightarrow> Inr s
      | Timestamp target_time \<Rightarrow>
          if now - target_time > TTL_SECONDS then Inr s
          else Inr (s\<lparr>message_queue := message_queue s @ [target_time]\<rparr>))"

text \<open>
  One turn of the main loop, at the time \<open>now\<close>: \<open>message_queue.get\<close> (an empty queue
  raises \<open>Empty\<close> and the loop continues), the second staleness test, the capture, and
  the publication of a result that is neither \<open>None\<close> nor empty.
\<close>

definition main_loop_iteration ::
  "settings \<Rightarrow> real \<Rightarrow> capture_env \<Rightarrow> station \<Rightarrow> station" where
  "main_loop_iteration st now env s =
     (case message_queue s of
        [] \<Rightarrow> s
      | target_time # rest \<Rightarrow>
          let s1 = s\<lparr>message_queue := rest\<rparr> in
          if now - target_time > TTL_SECONDS then s1
          else
            (case capture_and_ocr st env s1 of
               (final_result, s2) \<Rightarrow>
                 (case final_result of
                    None \<Rightarrow> s2
                  | Some code \<Rightarrow>
                      if code \<noteq> []
                      then s2\<lparr>calls := calls s2 @ [Publish MQTT_TOPIC_PUB code]\<rparr>
                      else s2)))"

subsection \<open>Notions used to state the properties\<close>

text \<open>Successive calls of \<open>capture_and_ocr\<close>, one per environment, results dropped.\<close>

fun captures :: "settings \<Rightarrow> capture_env list \<Rightarrow> station \<Rightarrow> station" where
  "captures st [] s = s"
| "captures st (env # envs) s = captures st envs (snd (capture_and_ocr st env s))"

text \<open>
  A fetch failure is a fetch that returned a code other than \<open>MV_OK\<close>; a fetch success
  one that returned \<open>MV_OK\<close>, at which point a buffer has been acquired.
\<close>

definition fetch_failed :: "capture_env \<Rightarrow> bool" where
  "fetch_failed env \<longleftrightarrow>
     (if trigger_raises env then False
      else case fetch env of FetchRaised \<Rightarrow> False | FetchReturned r \<Rightarrow> r \<noteq> MV_OK)"

definition fetch_succeeded :: "capture_env \<Rightarrow> bool" where
  "fetch_succeeded env \<longleftrightarrow>
     (if trigger_raises env then False else fetch env = FetchReturned MV_OK)"

section \<open>Properties of \<open>fix_code\<close>\<close>

lemma upper_char_alnum: "is_alnum c \<Longrightarrow> is_upper_alnum (upper_char c)"
  by (simp add: is_alnum_def is_upper_alnum_def upper_char_def less_eq_char_def) force

lemma upper_alnum_is_alnum: "is_upper_alnum c \<Longrightarrow> is_alnum c"
  by (simp add: is_alnum_def is_upper_alnum_def)

lemma upper_char_fixed: "is_upper_alnum c \<Longrightarrow> upper_char c = c"
  by (auto simp add: is_upper_alnum_def upper_char_def less_eq_char_def)

lemma cleaned_upper_alnum: "c \<in> set (upper (re_sub_non_alnum s)) \<Longrightarrow> is_upper_alnum c"
  by (auto simp add: upper_def re_sub_non_alnum_def upper_char_alnum)

lemma filter_upper_alnum: "\<forall>c\<in>set s. is_upper_alnum c \<Longrightarrow> re_sub_non_alnum s = s"
  by (simp add: re_sub_non_alnum_def upper_alnum_is_alnum)

lemma upper_upper_alnum: "\<forall>c\<in>set s. is_upper_alnum c \<Longrightarrow> upper s = s"
  by (simp add: upper_def upper_char_fixed map_idI)

lemma cleaned_twice:
  "upper (re_sub_non_alnum (upper (re_sub_non_alnum s))) = upper (re_sub_non_alnum s)"
proof -
  have all: "\<forall>c\<in>set (upper (re_sub_non_alnum s)). is_upper_alnum c"
    using cleaned_upper_alnum by blast
  then have "re_sub_non_alnum (upper (re_sub_non_alnum s)) = upper (re_sub_non_alnum s)"
    by (rule filter_upper_alnum)
  with all show ?thesis
    by (simp add: upper_upper_alnum)
qed

lemma cleaned_Nil: "upper (re_sub_non_alnum []) = []"
  by (simp add: upper_def re_sub_non_alnum_def)

lemma fix_code_Nil: "fix_code st (PyStr []) = []"
  by (simp add: Let_def cleaned_Nil)

lemma fix_code_fixed: "fix_code st (PyStr (fix_code st v)) = fix_code st v"
proof (cases v)
  case (PyStr s)
  show ?thesis
    unfolding PyStr by (simp add: Let_def cleaned_twice cleaned_Nil)
qed (simp_all add: Let_def cleaned_Nil)

text \<open>
  C1, as the code has it. With the filter switched on, \<open>fix_code\<close> returns a non-empty
  value only for a string whose cleaned form (non-alphanumerics removed, upper-cased) is
  the configured prefix followed by capital letters and digits, of the configured length
  in all; the value returned is that cleaned form. With the prefix LKTT and the length 10
  of the source, the nine-character "lktt12345" is rejected, the ten-character
  "lktt123456" is accepted as "LKTT123456", and "LKTT123" and "XXTT123456" are rejected.
\<close>

theorem fix_code_filter_rule:
  "(\<forall>st v. ENABLE_CODE_FILTER st \<and> fix_code st v \<noteq> [] \<longrightarrow>
      (\<exists>s rest. v = PyStr s \<and>
         upper (re_sub_non_alnum s) = CODE_PREFIX st @ rest \<and>
         (\<forall>c\<in>set rest. is_upper_alnum c) \<and>
         int (length (upper (re_sub_non_alnum s))) = CODE_LENGTH st \<and>
         fix_code st v = upper (re_sub_non_alnum s))) \<and>
   fix_code source_settings (PyStr ''lktt12345'') = [] \<and>
   fix_code source_settings (PyStr ''lktt123456'') = ''LKTT123456'' \<and>
   fix_code source_settings (PyStr ''LKTT123'') = [] \<and>
   fix_code source_settings (PyStr ''XXTT123456'') = []"
proof -
  have general: "\<exists>s rest. v = PyStr s \<and>
         upper (re_sub_non_alnum s) = CODE_PREFIX st @ rest \<and>
         (\<forall>c\<in>set rest. is_upper_alnum c) \<and>
         int (length (upper (re_sub_non_alnum s))) = CODE_LENGTH st \<and>
         fix_code st v = upper (re_sub_non_alnum s)"
    if on: "ENABLE_CODE_FILTER st" and ne: "fix_code st v \<noteq> []" for st v
  proof -
    from ne obtain s where v: "v = PyStr s"
      by (cases v) simp_all
    let ?c = "upper (re_sub_non_alnum s)"
    from ne on v have p: "prefix (CODE_PREFIX st) ?c" and l: "int (length ?c) = CODE_LENGTH st"
      by (simp_all add: Let_def startswith_def split: if_splits)
    from p obtain rest where r: "?c = CODE_PREFIX st @ rest"
      by (auto simp add: prefix_def)
    have "\<forall>c\<in>set rest. is_upper_alnum c"
    proof
      fix c assume "c \<in> set rest"
      then have "c \<in> set ?c" by (simp add: r)
      then show "is_upper_alnum c" by (rule cleaned_upper_alnum)
    qed
    moreover from on p l v have "fix_code st v = ?c"
      by (simp add: Let_def startswith_def)
    ultimately show ?thesis using v r l by blast
  qed
  have e1: "fix_code source_settings (PyStr ''lktt12345'') = []"
    by code_simp
  have e2: "fix_code source_settings (PyStr ''lktt123456'') = ''LKTT123456''"
    by code_simp
  have e3: "fix_code source_settings (PyStr ''LKTT123'') = []"
    by code_simp
  have e4: "fix_code source_settings (PyStr ''XXTT123456'') = []"
    by code_simp
  from general e1 e2 e3 e4 show ?thesis by blast
qed

theorem fix_code_filter_rule_witness:
  "ENABLE_CODE_FILTER source_settings \<and>
   fix_code source_settings (PyStr ''lk-tt 123456'') \<noteq> [] \<and>
   (\<exists>s rest. PyStr ''lk-tt 123456'' = PyStr s \<and>
      upper (re_sub_non_alnum s) = CODE_PREFIX source_settings @ rest \<and>
      int (length (upper (re_sub_non_alnum s))) = CODE_LENGTH source_settings \<and>
      fix_code source_settings (PyStr ''lk-tt 123456'') = upper (re_sub_non_alnum s))"
proof -
  have on: "ENABLE_CODE_FILTER source_settings"
    by (simp add: source_settings_def)
  have ne: "fix_code source_settings (PyStr ''lk-tt 123456'') \<noteq> []"
    by code_simp
  from fix_code_filter_rule on ne show ?thesis
    by blast
qed

text \<open>
  The example of C1 as the specification words it fails: "lktt12345" has nine characters
  and the rule asks for ten, so it is rejected, not returned as "LKTT12345".
\<close>

theorem fix_code_nine_characters_rejected:
  "fix_code source_settings (PyStr ''lktt12345'') \<noteq> ''LKTT12345''"
  by code_simp

text \<open>
  C9. \<open>fix_code\<close> is idempotent: applied to its own result (the empty rejection value
  included) it returns that result, whatever the argument and whatever the settings,
  filter on or off.
\<close>

theorem fix_code_idempotent:
  "fix_code st (PyStr (fix_code st v)) = fix_code st v"
  by (rule fix_code_fixed)

text \<open>
  C10. \<open>fix_code\<close> is total: on a value that is not a string it returns the empty string,
  the rejection value, and raises nothing; a detection whose text is not a string adds
  nothing to \<open>results\<close>, whatever its confidence.
\<close>

theorem fix_code_non_string:
  assumes "\<forall>s. v \<noteq> PyStr s"
  shows "fix_code st v = [] \<and>
         word_results st ((v, confidence) # line) = word_results st line"
proof -
  from assms have "fix_code st v = []"
    by (cases v) simp_all
  then show ?thesis
    by (simp add: Let_def)
qed

theorem fix_code_non_string_witness:
  "(\<forall>s. PyInt 12345 \<noteq> PyStr s) \<and> fix_code source_settings (PyInt 12345) = [] \<and>
   word_results source_settings [(PyInt 12345, 0.99)] = []"
proof -
  have h: "\<forall>s. PyInt 12345 \<noteq> PyStr s" by simp
  from h fix_code_non_string [OF h, of source_settings "0.99" "[]"] show ?thesis
    by simp
qed

section \<open>The counter and the vote\<close>

lemma keys_counter_add:
  "map fst (counter_add x m) = (if x \<in> set (map fst m) then map fst m else map fst m @ [x])"
  by (induction m) force+

lemma map_of_counter_add:
  "map_of (counter_add x m) = (map_of m)(x \<mapsto> (case map_of m x of None \<Rightarrow> 1 | Some n \<Rightarrow> n + 1))"
  by (induction m) (auto)

lemma Counter_snoc: "Counter (xs @ [x]) = counter_add x (Counter xs)"
  by (simp add: Counter_def)

lemma Counter_Nil: "Counter [] = []"
  by (simp add: Counter_def)

lemma keys_Counter: "set (map fst (Counter xs)) = set xs \<and> distinct (map fst (Counter xs))"
proof (induction xs rule: rev_induct)
  case Nil
  show ?case by (simp add: Counter_Nil)
next
  case (snoc x xs)
  then show ?case
    by (auto simp add: Counter_snoc keys_counter_add)
qed

lemma map_of_Counter:
  "map_of (Counter xs) k = (if k \<in> set xs then Some (count_list xs k) else None)"
proof (induction xs rule: rev_induct)
  case Nil
  show ?case by (simp add: Counter_Nil)
next
  case (snoc x xs)
  then show ?case
    by (auto simp add: Counter_snoc map_of_counter_add)
qed

lemma Counter_count: "(k, n) \<in> set (Counter xs) \<Longrightarrow> n = count_list xs k \<and> k \<in> set xs"
  using keys_Counter [of xs] map_of_Counter [of xs k]
  by (auto split: if_splits)

lemma takeWhile_neq_absent:
  "r \<notin> set xs \<Longrightarrow>
     takeWhile (\<lambda>k. k \<noteq> r) (xs @ ys) = xs @ takeWhile (\<lambda>k. k \<noteq> r) ys"
  by (induction xs) auto

lemma takeWhile_neq_present:
  "r \<in> set xs \<Longrightarrow> takeWhile (\<lambda>k. k \<noteq> r) (xs @ ys) = takeWhile (\<lambda>k. k \<noteq> r) xs"
  by (induction xs) auto

lemma takeWhile_keys_Counter:
  "set (takeWhile (\<lambda>k. k \<noteq> r) (map fst (Counter xs))) = set (takeWhile (\<lambda>k. k \<noteq> r) xs)"
proof (induction xs rule: rev_induct)
  case Nil
  show ?case by (simp add: Counter_Nil)
next
  case (snoc x xs)
  have ks: "set (map fst (Counter xs)) = set xs"
    using keys_Counter [of xs] by simp
  show ?case
  proof (cases "r \<in> set xs")
    case True
    then have "r \<in> set (map fst (Counter xs))" using ks by simp
    with True snoc show ?thesis
      by (simp add: Counter_snoc keys_counter_add takeWhile_neq_present del: set_map)
  next
    case False
    then have nk: "r \<notin> set (map fst (Counter xs))" using ks by simp
    have all_ks: "takeWhile (\<lambda>k. k \<noteq> r) (map fst (Counter xs)) = map fst (Counter xs)"
      using takeWhile_neq_absent [OF nk, of "[]"] by simp
    have xs_x: "set (takeWhile (\<lambda>k. k \<noteq> r) (xs @ [x])) = set xs \<union> set (takeWhile (\<lambda>k. k \<noteq> r) [x])"
      using takeWhile_neq_absent [OF False, of "[x]"] by simp
    show ?thesis
    proof (cases "x \<in> set xs")
      case True
      then have "map fst (Counter (xs @ [x])) = map fst (Counter xs)"
        using ks by (simp add: Counter_snoc keys_counter_add del: set_map)
      then have "set (takeWhile (\<lambda>k. k \<noteq> r) (map fst (Counter (xs @ [x])))) = set xs"
        by (simp only: all_ks ks)
      moreover have "set (takeWhile (\<lambda>k. k \<noteq> r) [x]) \<subseteq> set xs"
        using True by auto
      ultimately show ?thesis using xs_x by blast
    next
      case nx: False
      then have "map fst (Counter (xs @ [x])) = map fst (Counter xs) @ [x]"
        using ks by (simp add: Counter_snoc keys_counter_add del: set_map)
      then have "set (takeWhile (\<lambda>k. k \<noteq> r) (map fst (Counter (xs @ [x])))) =
                 set xs \<union> set (takeWhile (\<lambda>k. k \<noteq> r) [x])"
        by (simp only: takeWhile_neq_absent [OF nk, of "[x]"] set_append ks)
      then show ?thesis using xs_x by simp
    qed
  qed
qed

lemma max_by_count_ge: "snd best \<le> snd (max_by_count best items)"
proof (induction items arbitrary: best)
  case Nil
  show ?case by simp
next
  case (Cons item items)
  show ?case
  proof (cases "snd item > snd best")
    case True
    then have "snd best \<le> snd item" by simp
    also have "snd item \<le> snd (max_by_count item items)" by (rule Cons)
    finally show ?thesis using True by simp
  next
    case False
    then show ?thesis using Cons [of best] by simp
  qed
qed

lemma max_by_count_spec:
  "\<exists>pre post. best # items = pre @ max_by_count best items # post \<and>
     (\<forall>i\<in>set pre. snd i < snd (max_by_count best items)) \<and>
     (\<forall>i\<in>set post. snd i \<le> snd (max_by_count best items))"
proof (induction items arbitrary: best)
  case Nil
  have "[best] = [] @ best # [] \<and> (\<forall>i\<in>set []. snd i < snd best) \<and>
        (\<forall>i\<in>set []. snd i \<le> snd best)"
    by simp
  then have "\<exists>pre post. [best] = pre @ best # post \<and> (\<forall>i\<in>set pre. snd i < snd best) \<and>
        (\<forall>i\<in>set post. snd i \<le> snd best)"
    by blast
  then show ?case by simp
next
  case (Cons item items)
  show ?case
  proof (cases "snd item > snd best")
    case True
    define m where "m = max_by_count item items"
    have eq: "max_by_count best (item # items) = m"
      using True by (simp add: m_def)
    from Cons [of item] obtain pre post where
      s: "item # items = pre @ m # post" and
      l: "\<forall>i\<in>set pre. snd i < snd m" and
      u: "\<forall>i\<in>set post. snd i \<le> snd m"
      unfolding m_def by blast
    have "snd best < snd m"
      using True max_by_count_ge [of item items] by (simp add: m_def)
    with l have l': "\<forall>i\<in>set (best # pre). snd i < snd m"
      by simp
    have "best # item # items = (best # pre) @ m # post"
      by (simp only: s append_Cons)
    with l' u have "\<exists>pre post. best # item # items = pre @ m # post \<and>
       (\<forall>i\<in>set pre. snd i < snd m) \<and> (\<forall>i\<in>set post. snd i \<le> snd m)"
      by blast
    then show ?thesis by (simp only: eq)
  next
    case False
    define m where "m = max_by_count best items"
    have eq: "max_by_count best (item # items) = m"
      using False by (simp add: m_def)
    from Cons [of best] obtain pre post where
      s: "best # items = pre @ m # post" and
      l: "\<forall>i\<in>set pre. snd i < snd m" and
      u: "\<forall>i\<in>set post. snd i \<le> snd m"
      unfolding m_def by blast
    have ge: "snd best \<le> snd m"
      unfolding m_def by (rule max_by_count_ge)
    with False have item: "snd item \<le> snd m" by simp
    have "\<exists>pre post. best # item # items = pre @ m # post \<and>
       (\<forall>i\<in>set pre. snd i < snd m) \<and> (\<forall>i\<in>set post. snd i \<le> snd m)"
    proof (cases pre)
      case Nil
      with s have b: "best = m" and i: "items = post" by simp_all
      have "best # item # items = [] @ m # (item # post)"
        by (simp add: b i)
      moreover have "\<forall>i\<in>set (item # post). snd i \<le> snd m"
        using u item by simp
      moreover have "\<forall>i\<in>set []. snd i < snd m" by simp
      ultimately show ?thesis by blast
    next
      case (Cons p pre')
      with s have b: "best = p" and i: "items = pre' @ m # post" by simp_all
      from l Cons b have bl: "snd best < snd m" by simp
      with False have "snd item < snd m" by simp
      with l Cons have "\<forall>i\<in>set (p # item # pre'). snd i < snd m" by simp
      moreover have "best # item # items = (p # item # pre') @ m # post"
        by (simp add: b i)
      ultimately show ?thesis using u by blast
    qed
    then show ?thesis by (simp only: eq)
  qed
qed

lemma most_common_result_spec:
  assumes "results \<noteq> []"
  shows "\<exists>r. most_common_result results = Some r \<and> r \<in> set results \<and>
           (\<forall>y. count_list results y \<le> count_list results r) \<and>
           (\<forall>y\<in>set (takeWhile (\<lambda>k. k \<noteq> r) results).
               count_list results y < count_list results r)"
proof -
  from assms have "set (map fst (Counter results)) \<noteq> {}"
    using keys_Counter [of results] by simp
  then obtain item rest where c: "Counter results = item # rest"
    by (cases "Counter results") simp_all
  define m where "m = max_by_count item rest"
  from max_by_count_spec [of item rest] obtain pre post where
    s: "item # rest = pre @ m # post" and
    l: "\<forall>i\<in>set pre. snd i < snd m" and
    u: "\<forall>i\<in>set post. snd i \<le> snd m"
    unfolding m_def by blast
  have res: "most_common_result results = Some (fst m)"
    using assms by (simp add: most_common_result_def most_common_1_def c m_def split: prod.splits)
  have cs: "Counter results = pre @ m # post"
    using c s by simp
  have cnt: "n = count_list results k \<and> k \<in> set results" if "(k, n) \<in> set (Counter results)" for k n
    using that by (rule Counter_count)
  have m_in: "(fst m, snd m) \<in> set (Counter results)"
    by (simp add: cs)
  have m_cnt: "snd m = count_list results (fst m)" and m_res: "fst m \<in> set results"
    using cnt [OF m_in] by simp_all
  have le: "count_list results y \<le> count_list results (fst m)" for y
  proof (cases "y \<in> set results")
    case True
    then have "y \<in> set (map fst (Counter results))"
      using keys_Counter [of results] by simp
    then obtain n where yn: "(y, n) \<in> set (Counter results)"
      by auto
    then have n: "n = count_list results y" using cnt by blast
    from yn have "(y, n) \<in> set pre \<or> (y, n) = m \<or> (y, n) \<in> set post"
      by (auto simp add: cs)
    then have "n \<le> snd m"
      using l u by (auto simp add: less_imp_le)
    then show ?thesis by (simp add: n m_cnt)
  next
    case False
    then show ?thesis by (simp add: count_list_0_iff)
  qed
  have d: "distinct (map fst (Counter results))"
    using keys_Counter [of results] by simp
  then have "fst m \<notin> set (map fst pre)"
    by (simp add: cs)
  then have tw: "takeWhile (\<lambda>k. k \<noteq> fst m) (map fst (Counter results)) = map fst pre"
    using takeWhile_neq_absent [of "fst m" "map fst pre" "fst m # map fst post"]
    by (simp add: cs)
  have lt: "count_list results y < count_list results (fst m)"
    if "y \<in> set (takeWhile (\<lambda>k. k \<noteq> fst m) results)" for y
  proof -
    from that have "y \<in> set (map fst pre)"
      using takeWhile_keys_Counter [of "fst m" results] tw by simp
    then obtain n where yn: "(y, n) \<in> set pre" by auto
    then have "(y, n) \<in> set (Counter results)" by (simp add: cs)
    then have "n = count_list results y" using cnt by blast
    moreover from yn l have "n < snd m" by auto
    ultimately show ?thesis by (simp add: m_cnt)
  qed
  from res m_res le lt show ?thesis by blast
qed

lemma word_results_elem:
  "x \<in> set (word_results st line) \<Longrightarrow> x \<noteq> [] \<and> (\<exists>text. x = fix_code st text)"
  by (induction st line rule: word_results.induct) (auto simp add: Let_def split: if_splits)

lemma line_results_elem:
  "x \<in> set (line_results st ocr_results) \<Longrightarrow> x \<noteq> [] \<and> (\<exists>text. x = fix_code st text)"
  by (induction st ocr_results rule: line_results.induct) (auto dest: word_results_elem)

lemma collect_results_elem:
  "x \<in> set (collect_results st ocr_results) \<Longrightarrow> x \<noteq> [] \<and> (\<exists>text. x = fix_code st text)"
  by (auto simp add: collect_results_def dest: line_results_elem split: option.splits)

lemma most_common_result_Nil: "most_common_result [] = None"
  by (simp add: most_common_result_def)

lemma most_common_result_elem:
  assumes "most_common_result results = Some r"
  shows "r \<in> set results"
proof -
  from assms have "results \<noteq> []"
    by (auto simp add: most_common_result_Nil)
  from most_common_result_spec [OF this] assms show ?thesis
    by auto
qed

lemma most_common_result_single: "most_common_result [c] = Some c"
  by (simp add: most_common_result_def most_common_1_def Counter_def)

lemma aggregate_single:
  "aggregate st (Some [Some [(t, c)]]) =
     (if c > OCR_CONFIDENCE_THRESHOLD \<and> fix_code st t \<noteq> [] then Some (fix_code st t)
      else None)"
  by (simp add: aggregate_def collect_results_def Let_def most_common_result_single
      most_common_result_Nil)

text \<open>
  The comparison is strict at the threshold itself: a detection whose confidence is the
  float 0.8 is dropped.
\<close>

lemma confidence_at_threshold_dropped:
  "aggregate source_settings
     (Some [Some [(PyStr ''LKTT998877'', 3602879701896397 / 4503599627370496)]]) = None"
  by (simp add: aggregate_single OCR_CONFIDENCE_THRESHOLD_def)

section \<open>Properties of the recognition part\<close>

text \<open>
  C4, as the code has it. With the threshold 0.8 and the filter on (prefix LKTT, length
  10), the detections ("LKTT12345", 0.9), ("lktt12345", 0.85), ("other", 0.95) give no
  code at all: both nine-character candidates fail the length rule, like "other". The
  same detections with a tenth character, ("LKTT123456", 0.9), ("lktt123456", 0.85),
  ("other", 0.95), give "LKTT123456": two normalized matches against a rejected one.
\<close>

theorem aggregate_three_detections:
  "aggregate source_settings
     (Some [Some [(PyStr ''LKTT12345'', 0.9), (PyStr ''lktt12345'', 0.85),
                  (PyStr ''other'', 0.95)]]) = None \<and>
   aggregate source_settings
     (Some [Some [(PyStr ''LKTT123456'', 0.9), (PyStr ''lktt123456'', 0.85),
                  (PyStr ''other'', 0.95)]]) = Some ''LKTT123456''"
proof
  show "aggregate source_settings
     (Some [Some [(PyStr ''LKTT12345'', 0.9), (PyStr ''lktt12345'', 0.85),
                  (PyStr ''other'', 0.95)]]) = None"
    by code_simp
  show "aggregate source_settings
     (Some [Some [(PyStr ''LKTT123456'', 0.9), (PyStr ''lktt123456'', 0.85),
                  (PyStr ''other'', 0.95)]]) = Some ''LKTT123456''"
    by code_simp
qed

text \<open>
  C4 as the specification words it fails: the three detections do not give "LKTT12345".
\<close>

theorem aggregate_nine_characters_not_returned:
  "aggregate source_settings
     (Some [Some [(PyStr ''LKTT12345'', 0.9), (PyStr ''lktt12345'', 0.85),
                  (PyStr ''other'', 0.95)]]) \<noteq> Some ''LKTT12345''"
  by code_simp

text \<open>
  C6. Whatever the OCR output and the settings, a code returned by the recognition part
  is accepted by \<open>fix_code\<close>: it is not empty, and \<open>fix_code\<close> returns it unchanged.
\<close>

theorem aggregate_result_accepted:
  assumes "aggregate st ocr_results = Some code"
  shows "fix_code st (PyStr code) = code \<and> fix_code st (PyStr code) \<noteq> []"
proof -
  from assms have "code \<in> set (collect_results st ocr_results)"
    by (simp add: aggregate_def most_common_result_elem)
  then obtain t where ne: "code \<noteq> []" and c: "code = fix_code st t"
    using collect_results_elem by blast
  have "fix_code st (PyStr code) = code"
    unfolding c by (rule fix_code_fixed)
  with ne show ?thesis by simp
qed

theorem aggregate_result_accepted_witness:
  "aggregate source_settings
     (Some [None, Some [(PyStr ''lktt-00 4711'', 0.97), (PyInt 7, 0.99)]]) = Some ''LKTT004711'' \<and>
   fix_code source_settings (PyStr ''LKTT004711'') = ''LKTT004711'' \<and>
   fix_code source_settings (PyStr ''LKTT004711'') \<noteq> []"
proof -
  have a: "aggregate source_settings
     (Some [None, Some [(PyStr ''lktt-00 4711'', 0.97), (PyInt 7, 0.99)]]) = Some ''LKTT004711''"
    by code_simp
  from a aggregate_result_accepted [OF a] show ?thesis by blast
qed

text \<open>
  C8. For a non-empty list of results the vote returns a value of the list of greatest
  frequency, and among the values of greatest frequency the one met first: no other
  value with the same frequency occurs before the first occurrence of the value returned.
\<close>

theorem most_common_first_encountered:
  assumes "results \<noteq> []"
  shows "\<exists>r. most_common_result results = Some r \<and> r \<in> set results \<and>
           (\<forall>y. count_list results y \<le> count_list results r) \<and>
           (\<forall>y. y \<noteq> r \<and> count_list results y = count_list results r \<longrightarrow>
                y \<notin> set (takeWhile (\<lambda>k. k \<noteq> r) results))"
proof -
  from most_common_result_spec [OF assms] obtain r where
    r: "most_common_result results = Some r" "r \<in> set results"
       "\<forall>y. count_list results y \<le> count_list results r" and
    lt: "\<forall>y\<in>set (takeWhile (\<lambda>k. k \<noteq> r) results).
           count_list results y < count_list results r"
    by blast
  from lt have "\<forall>y. y \<noteq> r \<and> count_list results y = count_list results r \<longrightarrow>
                y \<notin> set (takeWhile (\<lambda>k. k \<noteq> r) results)"
    by fastforce
  with r show ?thesis by blast
qed

theorem most_common_first_encountered_witness:
  "[''B1'', ''A1'', ''A1'', ''B1'', ''C1''] \<noteq> [] \<and>
   most_common_result [''B1'', ''A1'', ''A1'', ''B1'', ''C1''] = Some ''B1'' \<and>
   (\<exists>r. most_common_result [''B1'', ''A1'', ''A1'', ''B1'', ''C1''] = Some r \<and>
        (\<forall>y. count_list [''B1'', ''A1'', ''A1'', ''B1'', ''C1''] y
               \<le> count_list [''B1'', ''A1'', ''A1'', ''B1'', ''C1''] r))"
proof -
  have ne: "[''B1'', ''A1'', ''A1'', ''B1'', ''C1''] \<noteq> []" by simp
  have v: "most_common_result [''B1'', ''A1'', ''A1'', ''B1'', ''C1''] = Some ''B1''"
    by code_simp
  from ne v most_common_first_encountered [OF ne] show ?thesis by blast
qed

section \<open>One call of \<open>capture_and_ocr\<close>\<close>

lemma capture_fetch_failed:
  assumes "fetch_failed env"
  shows "capture_and_ocr st env s =
     (None,
      if consecutive_failures s + 1 \<ge> CAMERA_MAX_FAILURES then
        s\<lparr>consecutive_failures := (if reconnect_ok env then 0 else consecutive_failures s + 1),
          camera_initialized := reconnect_ok env,
          calls := calls s @ [TriggerSoftware, GetImageBuffer, ReconnectCamera]\<rparr>
      else
        s\<lparr>consecutive_failures := consecutive_failures s + 1,
          calls := calls s @ [TriggerSoftware, GetImageBuffer]\<rparr>)"
  using assms
  by (auto simp add: fetch_failed_def capture_and_ocr_def try_capture_def reconnect_camera_def
      Let_def split: fetch.splits if_splits)

lemma capture_fetch_succeeded:
  assumes "fetch_succeeded env"
  shows "capture_and_ocr st env s =
     (case processing env of
        ProcessingRaised \<Rightarrow> None
      | OcrReturned ocr_results \<Rightarrow> aggregate st ocr_results,
      s\<lparr>consecutive_failures := 0,
        calls := calls s @ [TriggerSoftware, GetImageBuffer, FreeImageBuffer]\<rparr>)"
  using assms
  by (auto simp add: fetch_succeeded_def capture_and_ocr_def try_capture_def
      Let_def split: processing.splits if_splits)

section \<open>Properties of the station\<close>

text \<open>
  C2. From a counter at zero, the first two fetch failures in a row call the camera
  only; the third calls \<open>reconnect_camera\<close> once, after its fetch and before
  \<open>capture_and_ocr\<close> returns, hence before the next capture attempt. The counter is then
  zero if the reconnection succeeded and three otherwise. A fetch success always leaves
  the counter at zero, and so does every failure whose reconnection succeeds.
\<close>

theorem reconnect_after_max_failures:
  assumes "consecutive_failures s = 0"
    and "fetch_failed e1" and "fetch_failed e2" and "fetch_failed e3"
  shows "CAMERA_MAX_FAILURES = 3 \<and>
     calls (captures st [e1] s) = calls s @ [TriggerSoftware, GetImageBuffer] \<and>
     calls (captures st [e1, e2] s) =
       calls s @ [TriggerSoftware, GetImageBuffer, TriggerSoftware, GetImageBuffer] \<and>
     calls (captures st [e1, e2, e3] s) =
       calls s @ [TriggerSoftware, GetImageBuffer, TriggerSoftware, GetImageBuffer,
                  TriggerSoftware, GetImageBuffer, ReconnectCamera] \<and>
     consecutive_failures (captures st [e1, e2, e3] s) = (if reconnect_ok e3 then 0 else 3) \<and>
     (\<forall>e s'. fetch_succeeded e \<longrightarrow>
        consecutive_failures (snd (capture_and_ocr st e s')) = 0) \<and>
     (\<forall>e s'. fetch_failed e \<and> CAMERA_MAX_FAILURES \<le> consecutive_failures s' + 1 \<and>
        reconnect_ok e \<longrightarrow>
        consecutive_failures (snd (capture_and_ocr st e s')) = 0 \<and>
        calls (snd (capture_and_ocr st e s')) =
          calls s' @ [TriggerSoftware, GetImageBuffer, ReconnectCamera])"
proof -
  have m: "CAMERA_MAX_FAILURES = 3"
    by (simp add: CAMERA_MAX_FAILURES_def)
  have c1: "calls (captures st [e1] s) = calls s @ [TriggerSoftware, GetImageBuffer]"
    using assms by (simp add: capture_fetch_failed m)
  have c2: "calls (captures st [e1, e2] s) =
       calls s @ [TriggerSoftware, GetImageBuffer, TriggerSoftware, GetImageBuffer]"
    using assms by (simp add: capture_fetch_failed m)
  have c3: "calls (captures st [e1, e2, e3] s) =
       calls s @ [TriggerSoftware, GetImageBuffer, TriggerSoftware, GetImageBuffer,
                  TriggerSoftware, GetImageBuffer, ReconnectCamera]"
    using assms by (simp add: capture_fetch_failed m)
  have n3: "consecutive_failures (captures st [e1, e2, e3] s) =
      (if reconnect_ok e3 then 0 else 3)"
    using assms by (simp add: capture_fetch_failed m)
  have ok: "\<forall>e s'. fetch_succeeded e \<longrightarrow>
        consecutive_failures (snd (capture_and_ocr st e s')) = 0"
    by (simp add: capture_fetch_succeeded)
  have re: "\<forall>e s'. fetch_failed e \<and> CAMERA_MAX_FAILURES \<le> consecutive_failures s' + 1 \<and>
        reconnect_ok e \<longrightarrow>
        consecutive_failures (snd (capture_and_ocr st e s')) = 0 \<and>
        calls (snd (capture_and_ocr st e s')) =
          calls s' @ [TriggerSoftware, GetImageBuffer, ReconnectCamera]"
    by (simp add: capture_fetch_failed)
  from m c1 c2 c3 n3 ok re show ?thesis by blast
qed

theorem reconnect_after_max_failures_witness:
  "consecutive_failures
     \<lparr>consecutive_failures = 0, camera_initialized = True, message_queue = [], calls = []\<rparr> = 0 \<and>
   fetch_failed \<lparr>trigger_raises = False, fetch = FetchReturned 2147483655,
      reconnect_ok = False, processing = ProcessingRaised\<rparr> \<and>
   calls (captures source_settings
      [\<lparr>trigger_raises = False, fetch = FetchReturned 2147483655,
          reconnect_ok = False, processing = ProcessingRaised\<rparr>,
       \<lparr>trigger_raises = False, fetch = FetchReturned 2147483655,
          reconnect_ok = False, processing = ProcessingRaised\<rparr>,
       \<lparr>trigger_raises = False, fetch = FetchReturned 2147483655,
          reconnect_ok = False, processing = ProcessingRaised\<rparr>]
      \<lparr>consecutive_failures = 0, camera_initialized = True, message_queue = [], calls = []\<rparr>) =
     [TriggerSoftware, GetImageBuffer, TriggerSoftware, GetImageBuffer,
      TriggerSoftware, GetImageBuffer, ReconnectCamera]"
proof -
  define s :: station where
    "s = \<lparr>consecutive_failures = 0, camera_initialized = True, message_queue = [], calls = []\<rparr>"
  define e :: capture_env where
    "e = \<lparr>trigger_raises = False, fetch = FetchReturned 2147483655,
          reconnect_ok = False, processing = ProcessingRaised\<rparr>"
  have z: "consecutive_failures s = 0"
    by (simp add: s_def)
  have f: "fetch_failed e"
    by (simp add: e_def fetch_failed_def MV_OK_def)
  have "calls (captures source_settings [e, e, e] s) =
     calls s @ [TriggerSoftware, GetImageBuffer, TriggerSoftware, GetImageBuffer,
                TriggerSoftware, GetImageBuffer, ReconnectCamera]"
    using reconnect_after_max_failures [OF z f f f, of source_settings] by blast
  then have "calls (captures source_settings [e, e, e] s) =
     [TriggerSoftware, GetImageBuffer, TriggerSoftware, GetImageBuffer,
      TriggerSoftware, GetImageBuffer, ReconnectCamera]"
    by (simp add: s_def)
  with z f show ?thesis
    unfolding s_def e_def by blast
qed

text \<open>
  C3. Whenever the fetch has returned \<open>MV_OK\<close>, \<open>capture_and_ocr\<close> calls
  \<open>MV_CC_FreeImageBuffer\<close> once before it returns, whatever happens to the frame
  afterwards: a code, no code, or an exception, on which it returns \<open>None\<close>.
\<close>

theorem buffer_released_after_fetch:
  assumes "fetch_succeeded env"
  shows "calls (snd (capture_and_ocr st env s)) =
           calls s @ [TriggerSoftware, GetImageBuffer, FreeImageBuffer] \<and>
         (processing env = ProcessingRaised \<longrightarrow> fst (capture_and_ocr st env s) = None)"
  using assms by (simp add: capture_fetch_succeeded)

theorem buffer_released_after_fetch_witness:
  "fetch_succeeded \<lparr>trigger_raises = False, fetch = FetchReturned 0,
      reconnect_ok = False, processing = ProcessingRaised\<rparr> \<and>
   capture_and_ocr source_settings
     \<lparr>trigger_raises = False, fetch = FetchReturned 0,
        reconnect_ok = False, processing = ProcessingRaised\<rparr>
     \<lparr>consecutive_failures = 2, camera_initialized = True, message_queue = [], calls = []\<rparr> =
     (None, \<lparr>consecutive_failures = 0, camera_initialized = True, message_queue = [],
              calls = [TriggerSoftware, GetImageBuffer, FreeImageBuffer]\<rparr>)"
proof -
  define s :: station where
    "s = \<lparr>consecutive_failures = 2, camera_initialized = True, message_queue = [], calls = []\<rparr>"
  define e :: capture_env where
    "e = \<lparr>trigger_raises = False, fetch = FetchReturned 0,
          reconnect_ok = False, processing = ProcessingRaised\<rparr>"
  have f: "fetch_succeeded e"
    by (simp add: e_def fetch_succeeded_def MV_OK_def)
  have p: "processing e = ProcessingRaised"
    by (simp add: e_def)
  from buffer_released_after_fetch [OF f, of source_settings s] p
  have "calls (snd (capture_and_ocr source_settings e s)) =
          [TriggerSoftware, GetImageBuffer, FreeImageBuffer]"
    and "fst (capture_and_ocr source_settings e s) = None"
    by (simp_all add: s_def)
  moreover have "capture_and_ocr source_settings e s =
     (None, \<lparr>consecutive_failures = 0, camera_initialized = True, message_queue = [],
              calls = [TriggerSoftware, GetImageBuffer, FreeImageBuffer]\<rparr>)"
    by (simp add: capture_and_ocr_def try_capture_def e_def s_def MV_OK_def)
  ultimately show ?thesis using f
    unfolding s_def e_def by blast
qed

text \<open>
  C5. A trigger older than \<open>TTL_SECONDS\<close> when its message arrives is not queued: the
  callback returns normally and leaves the state as it was; a queued trigger older than \<open>TTL_SECONDS\<close> when the main
  loop takes it is removed from the queue and nothing else changes: no call is made, so
  no capture is attempted for it.
\<close>

theorem stale_trigger_dropped:
  assumes "now - target_time > TTL_SECONDS"
  shows "on_mqtt_message now (Timestamp target_time) s = Inr s \<and>
         main_loop_iteration st now env (s\<lparr>message_queue := target_time # rest\<rparr>) =
           s\<lparr>message_queue := rest\<rparr>"
  using assms by (simp add: on_mqtt_message_def main_loop_iteration_def)

theorem stale_trigger_dropped_witness:
  "(106 :: real) - 100 > TTL_SECONDS \<and>
   on_mqtt_message 106 (Timestamp 100)
     \<lparr>consecutive_failures = 0, camera_initialized = True, message_queue = [], calls = []\<rparr> =
     Inr \<lparr>consecutive_failures = 0, camera_initialized = True, message_queue = [],
           calls = []\<rparr> \<and>
   main_loop_iteration source_settings 106
     \<lparr>trigger_raises = False, fetch = FetchReturned 0, reconnect_ok = True,
        processing = OcrReturned (Some [Some [(PyStr ''LKTT123456'', 0.9)]])\<rparr>
     \<lparr>consecutive_failures = 0, camera_initialized = True, message_queue = [100, 105],
        calls = []\<rparr> =
     \<lparr>consecutive_failures = 0, camera_initialized = True, message_queue = [105], calls = []\<rparr>"
proof -
  have h: "(106 :: real) - 100 > TTL_SECONDS"
    by (simp add: TTL_SECONDS_def)
  from stale_trigger_dropped [OF h,
      of "\<lparr>consecutive_failures = 0, camera_initialized = True, message_queue = [], calls = []\<rparr>"
         source_settings
         "\<lparr>trigger_raises = False, fetch = FetchReturned 0, reconnect_ok = True,
            processing = OcrReturned (Some [Some [(PyStr ''LKTT123456'', 0.9)]])\<rparr>"
         "[105]"]
  show ?thesis using h by simp
qed

text \<open>
  C7, as the code has it. A fresh trigger is taken from the queue and the fetch
  succeeds. If the OCR yields exactly the one detection ("LKTT99887", 0.92), the camera
  is triggered, the frame fetched and released, the counter is zero and nothing is
  published: the text has nine characters and the rule of the source asks for ten. If
  it yields exactly the one detection ("LKTT998877", 0.92), the same calls are followed
  by exactly one publication of "LKTT998877" on the outbound topic, and the counter is
  zero.
\<close>

theorem fresh_trigger_single_detection:
  assumes "message_queue s = target_time # rest"
    and "\<not> now - target_time > TTL_SECONDS"
    and "fetch_succeeded env"
  shows "(processing env = OcrReturned (Some [Some [(PyStr ''LKTT99887'', 0.92)]]) \<longrightarrow>
            main_loop_iteration source_settings now env s =
              s\<lparr>message_queue := rest, consecutive_failures := 0,
                calls := calls s @ [TriggerSoftware, GetImageBuffer, FreeImageBuffer]\<rparr>) \<and>
         (processing env = OcrReturned (Some [Some [(PyStr ''LKTT998877'', 0.92)]]) \<longrightarrow>
            main_loop_iteration source_settings now env s =
              s\<lparr>message_queue := rest, consecutive_failures := 0,
                calls := calls s @ [TriggerSoftware, GetImageBuffer, FreeImageBuffer,
                                    Publish MQTT_TOPIC_PUB ''LKTT998877'']\<rparr>)"
proof -
  have c: "(0.92 :: real) > OCR_CONFIDENCE_THRESHOLD"
    by (simp add: OCR_CONFIDENCE_THRESHOLD_def)
  have nine: "fix_code source_settings (PyStr ''LKTT99887'') = []"
    by code_simp
  have ten: "fix_code source_settings (PyStr ''LKTT998877'') = ''LKTT998877''"
    by code_simp
  have a: "main_loop_iteration source_settings now env s =
              s\<lparr>message_queue := rest, consecutive_failures := 0,
                calls := calls s @ [TriggerSoftware, GetImageBuffer, FreeImageBuffer]\<rparr>"
    if "processing env = OcrReturned (Some [Some [(PyStr ''LKTT99887'', 0.92)]])"
    using assms that c
    by (simp add: main_loop_iteration_def capture_fetch_succeeded aggregate_single nine
        del: fix_code.simps)
  have b: "main_loop_iteration source_settings now env s =
              s\<lparr>message_queue := rest, consecutive_failures := 0,
                calls := calls s @ [TriggerSoftware, GetImageBuffer, FreeImageBuffer,
                                    Publish MQTT_TOPIC_PUB ''LKTT998877'']\<rparr>"
    if "processing env = OcrReturned (Some [Some [(PyStr ''LKTT998877'', 0.92)]])"
    using assms that c
    by (simp add: main_loop_iteration_def capture_fetch_succeeded aggregate_single ten
        del: fix_code.simps)
  from a b show ?thesis by blast
qed

theorem fresh_trigger_single_detection_witness:
  "main_loop_iteration source_settings 103
     \<lparr>trigger_raises = False, fetch = FetchReturned 0, reconnect_ok = False,
        processing = OcrReturned (Some [Some [(PyStr ''LKTT998877'', 0.92)]])\<rparr>
     \<lparr>consecutive_failures = 0, camera_initialized = True, message_queue = [100],
        calls = []\<rparr> =
     \<lparr>consecutive_failures = 0, camera_initialized = True, message_queue = [],
        calls = [TriggerSoftware, GetImageBuffer, FreeImageBuffer,
                 Publish ''mqtt_plc/code'' ''LKTT998877'']\<rparr>"
proof -
  define s :: station where
    "s = \<lparr>consecutive_failures = 0, camera_initialized = True, message_queue = [100],
           calls = []\<rparr>"
  define e :: capture_env where
    "e = \<lparr>trigger_raises = False, fetch = FetchReturned 0, reconnect_ok = False,
           processing = OcrReturned (Some [Some [(PyStr ''LKTT998877'', 0.92)]])\<rparr>"
  have q: "message_queue s = 100 # []"
    by (simp add: s_def)
  have fresh: "\<not> (103 :: real) - 100 > TTL_SECONDS"
    by (simp add: TTL_SECONDS_def)
  have f: "fetch_succeeded e"
    by (simp add: e_def fetch_succeeded_def MV_OK_def)
  have p: "processing e = OcrReturned (Some [Some [(PyStr ''LKTT998877'', 0.92)]])"
    by (simp add: e_def)
  from fresh_trigger_single_detection [OF q fresh f] p
  have "main_loop_iteration source_settings 103 e s =
      s\<lparr>message_queue := [], consecutive_failures := 0,
        calls := calls s @ [TriggerSoftware, GetImageBuffer, FreeImageBuffer,
                            Publish MQTT_TOPIC_PUB ''LKTT998877'']\<rparr>"
    by blast
  then show ?thesis
    by (simp add: s_def e_def MQTT_TOPIC_PUB_def)
qed

text \<open>
  C7 as the specification words it fails: with the single detection ("LKTT99887", 0.92)
  the turn of the main loop publishes nothing.
\<close>

theorem nine_character_detection_not_published:
  "Publish MQTT_TOPIC_PUB ''LKTT99887'' \<notin> set (calls
     (main_loop_iteration source_settings 103
        \<lparr>trigger_raises = False, fetch = FetchReturned 0, reconnect_ok = False,
           processing = OcrReturned (Some [Some [(PyStr ''LKTT99887'', 0.92)]])\<rparr>
        \<lparr>consecutive_failures = 0, camera_initialized = True, message_queue = [100],
           calls = []\<rparr>))"
  by code_simp

end
